theory Spec2Isabelle
  imports Main "HOL-Library.Sublist"
begin

section \<open>Strings\<close>

text \<open>
  A Python \<open>str\<close> is a sequence of Unicode code points; the literals of
  \<open>step_fun.py\<close> are Chinese, so a string is modelled as the list of its code points.
\<close>

type_synonym ustr = "nat list"

text \<open>The code points for which Python's \<open>str.isspace\<close> holds; \<open>str.strip()\<close> removes them.\<close>

definition is_space :: "nat \<Rightarrow> bool" where
  "is_space c = (c \<in> set [9, 10, 11, 12, 13, 28, 29, 30, 31, 32, 133, 160, 5760,
      8192, 8193, 8194, 8195, 8196, 8197, 8198, 8199, 8200, 8201, 8202,
      8232, 8233, 8239, 8287, 12288])"

definition strip :: "ustr \<Rightarrow> ustr" where
  "strip s = rev (dropWhile is_space (rev (dropWhile is_space s)))"

text \<open>\<open>m in s\<close> on two strings: \<open>m\<close> occurs in \<open>s\<close> as a contiguous substring.\<close>

fun py_in :: "ustr \<Rightarrow> ustr \<Rightarrow> bool" where
  "py_in m [] = (m = [])"
| "py_in m (c # s) = (prefix m (c # s) \<or> py_in m s)"

text \<open>The string literals of the source.\<close>

definition thinking_marker :: ustr where
  \<comment> \<open>line 132: the in-progress marker, U+4E0E " DeepSeek R1 " U+751F U+6210\<close>
  "thinking_marker = [19982, 32, 68, 101, 101, 112, 83, 101, 101, 107, 32, 82, 49, 32, 29983, 25104]"

definition timeout_message :: ustr where
  \<comment> \<open>line 149: the string returned when the budget is exhausted and nothing is stored\<close>
  "timeout_message = [22238, 22797, 36229, 26102, 65292, 26410, 33719, 21462, 21040, 23436,
      25972, 22238, 22797]"

definition web_search_marker :: ustr where
  \<comment> \<open>line 88: the left boundary, U+8054 U+7F51\<close>
  "web_search_marker = [32852, 32593]"

definition stepfun_video_marker :: ustr where
  \<comment> \<open>line 90: the right boundary, U+89C6 U+9891 U+521B U+4F5C\<close>
  "stepfun_video_marker = [35270, 39057, 21019, 20316]"

section \<open>Errors\<close>

text \<open>
  Every exception of the run is a value. \<open>LibraryError\<close> stands for whatever an awaited
  browser call or the operating system raises; the three \<open>Exception(...)\<close> of
  \<open>chat_with_stepfun_ai\<close> are told apart by their message.
\<close>

datatype error =
    LibraryError
  | TypeError               \<comment> \<open>\<open>"..." in None\<close>, line 88\<close>
  | InputNotFound           \<comment> \<open>line 75, no input field\<close>
  | TargetButtonNotFound    \<comment> \<open>line 94, a boundary button is missing\<close>
  | ChatButtonNotFound      \<comment> \<open>line 99, nothing between the boundaries\<close>

text \<open>The specification's \<open>ControlNotFoundError\<close> is any of the three explicit raises.\<close>

definition is_control_not_found :: "error \<Rightarrow> bool" where
  "is_control_not_found e = (e \<in> {InputNotFound, TargetButtonNotFound, ChatButtonNotFound})"

section \<open>Reading the response region: \<open>get_ai_response\<close>\<close>

text \<open>
  What the page answers to one read of the response region: building the locator raises,
  \<open>text_content()\<close> raises, or \<open>text_content()\<close> returns \<open>None\<close> or a string.
\<close>

datatype read_outcome =
    LocatorRaises
  | TextContentRaises
  | TextContent "ustr option"

text \<open>The body of the \<open>try\<close> of \<open>get_ai_response\<close>, up to the value of \<open>response_text\<close>.\<close>

definition read_region :: "read_outcome \<Rightarrow> error + ustr option" where
  "read_region r =
     (case r of
        LocatorRaises \<Rightarrow> Inl LibraryError
      | TextContentRaises \<Rightarrow> Inl LibraryError
      | TextContent t \<Rightarrow> Inr t)"

text \<open>
  \<open>get_ai_response\<close>: \<open>return response_text if response_text else ""\<close>, and \<open>return ""\<close>
  in the handler. The result type keeps the error side, so that a caller's handler is
  modelled too.
\<close>

definition get_ai_response :: "read_outcome \<Rightarrow> error + ustr" where
  "get_ai_response r =
     (case read_region r of
        Inl e \<Rightarrow> Inr []
      | Inr None \<Rightarrow> Inr []
      | Inr (Some response_text) \<Rightarrow> Inr (if response_text \<noteq> [] then response_text else []))"

section \<open>The polling loop: \<open>wait_for_ai_response\<close>\<close>

text \<open>
  One tick of the page: the outcome of \<open>page.wait_for_timeout(1000)\<close>, which is outside
  the \<open>try\<close>, and the outcome of the read.
\<close>

record tick_env =
  wait_for_timeout :: "error + unit"
  region :: read_outcome

text \<open>The three ways the \<open>try\<close> block of a tick ends without raising.\<close>

datatype tick_step =
    Skip            \<comment> \<open>line 134, \<open>continue\<close>\<close>
  | Finish ustr     \<comment> \<open>line 139, \<open>return response\<close>\<close>
  | Store ustr      \<comment> \<open>line 141, \<open>prev_response = response\<close>\<close>

definition tick_body :: "ustr \<Rightarrow> read_outcome \<Rightarrow> error + tick_step" where
  "tick_body prev_response r =
     (case get_ai_response r of
        Inl e \<Rightarrow> Inl e
      | Inr response \<Rightarrow>
          if py_in thinking_marker response then Inr Skip
          else if length (strip prev_response) > 0 \<and> strip prev_response = strip response
          then Inr (Finish response)
          else Inr (Store response))"

text \<open>The loop after one tick: go on with a stored text, return, or raise.\<close>

datatype loop_state =
    Continue ustr
  | Return ustr
  | Raise error

definition poll_tick :: "ustr \<Rightarrow> tick_env \<Rightarrow> loop_state" where
  "poll_tick prev_response e =
     (case wait_for_timeout e of
        Inl err \<Rightarrow> Raise err
      | Inr _ \<Rightarrow>
         (case tick_body prev_response (region e) of
            Inl err \<Rightarrow> Continue prev_response     \<comment> \<open>lines 144-146, \<open>except ...: continue\<close>\<close>
          | Inr Skip \<Rightarrow> Continue prev_response
          | Inr (Finish response) \<Rightarrow> Return response
          | Inr (Store response) \<Rightarrow> Continue response))"

text \<open>
  The function returns a bare string; the constructor records which \<open>return\<close> statement
  produced it: line 139 (after the log line "reply complete") or line 149 (after the
  warning "reply timed out").
\<close>

datatype poll_result =
    Completed ustr
  | TimedOut ustr

fun result_text :: "poll_result \<Rightarrow> ustr" where
  "result_text (Completed s) = s"
| "result_text (TimedOut s) = s"

fun poll_ticks :: "tick_env list \<Rightarrow> ustr \<Rightarrow> error + poll_result" where
  "poll_ticks [] prev_response =
     Inr (TimedOut (if prev_response \<noteq> [] then prev_response else timeout_message))"
| "poll_ticks (e # es) prev_response =
     (case poll_tick prev_response e of
        Raise err \<Rightarrow> Inl err
      | Return response \<Rightarrow> Inr (Completed response)
      | Continue p \<Rightarrow> poll_ticks es p)"

text \<open>\<open>page i\<close> is what the page answers at the tick numbered \<open>i\<close> of \<open>range(1800)\<close>.\<close>

definition wait_for_ai_response :: "(nat \<Rightarrow> tick_env) \<Rightarrow> error + poll_result" where
  "wait_for_ai_response page = poll_ticks (map page [0..<1800]) []"

text \<open>
  The value of \<open>prev_response\<close> after the given ticks, when none of them left the loop
  (\<open>None\<close> when one returned or raised).
\<close>

fun stored_after :: "tick_env list \<Rightarrow> ustr \<Rightarrow> ustr option" where
  "stored_after [] prev_response = Some prev_response"
| "stored_after (e # es) prev_response =
     (case poll_tick prev_response e of
        Continue p \<Rightarrow> stored_after es p
      | Return response \<Rightarrow> None
      | Raise err \<Rightarrow> None)"

text \<open>
  What a tick reads, whether it is skipped, and the texts read by the ticks that are not
  skipped, in order.
\<close>

definition tick_response :: "tick_env \<Rightarrow> ustr" where
  "tick_response e = (case get_ai_response (region e) of Inl err \<Rightarrow> [] | Inr response \<Rightarrow> response)"

definition skipped :: "tick_env \<Rightarrow> bool" where
  "skipped e = py_in thinking_marker (tick_response e)"

definition observations :: "tick_env list \<Rightarrow> ustr list" where
  "observations es = map tick_response (filter (\<lambda>e. \<not> skipped e) es)"

text \<open>Concrete pages.\<close>

definition text_tick :: "ustr \<Rightarrow> tick_env" where
  "text_tick s = \<lparr>wait_for_timeout = Inr (), region = TextContent (Some s)\<rparr>"

definition failing_tick :: tick_env where
  "failing_tick = \<lparr>wait_for_timeout = Inr (), region = TextContentRaises\<rparr>"

definition partial_text :: ustr where
  \<comment> \<open>"partial"\<close>
  "partial_text = [112, 97, 114, 116, 105, 97, 108]"

definition thinking_text :: ustr where
  \<comment> \<open>"t: " followed by the in-progress marker\<close>
  "thinking_text = [116, 58, 32] @ thinking_marker"

definition scenario_page :: "nat \<Rightarrow> tick_env" where
  \<comment> \<open>the empty text, then a text with the marker, then "partial" for ever\<close>
  "scenario_page i =
     (if i = 0 then text_tick []
      else if i = 1 then text_tick thinking_text
      else text_tick partial_text)"

definition fading_page :: "nat \<Rightarrow> tick_env" where
  \<comment> \<open>"partial" once, then the empty text for ever\<close>
  "fading_page i = (if i = 0 then text_tick partial_text else text_tick [])"

section \<open>The run: \<open>chat_with_stepfun_ai\<close>\<close>

text \<open>
  A button of the page: its element handle and the outcome of \<open>text_content()\<close> on it
  (the call raises, or returns \<open>None\<close> or a string).
\<close>

record button =
  btn_handle :: nat
  btn_text :: "error + ustr option"

text \<open>
  The calls of a run on the operating system and the browser, in the order they are made.
  The reads of the button texts and of the response region are left out.
\<close>

datatype event =
    Makedirs
  | PlaywrightStart
  | Launch
  | NewContext
  | NewPage
  | Goto
  | WaitForLoadState
  | QueryReasonButton
  | ClickReasonButton nat
  | QueryInputFields
  | Fill nat ustr
  | QueryButtons
  | ClickButton button
  | WaitForAiResponse
  | BrowserClose
  | PlaywrightStop

text \<open>
  What the outside world answers to each call of a run: \<open>Inl\<close> when the call raises,
  \<open>Inr\<close> with the value returned otherwise. Element handles are numbers.
\<close>

record env =
  makedirs :: "error + unit"
  async_playwright :: "error + unit"
  launch :: "error + unit"
  new_context :: "error + unit"
  new_page :: "error + unit"
  goto :: "error + unit"
  wait_for_load_state :: "error + unit"
  reason_button :: "error + nat option"
  reason_click :: "error + unit"
  input_fields :: "error + nat list"
  fill :: "error + unit"
  buttons :: "error + button list"
  middle_click :: "error + unit"
  ticks :: "nat \<Rightarrow> tick_env"
  browser_close :: "error + unit"

text \<open>A computation: the calls it made, and the exception it raised or the value it returned.\<close>

type_synonym 'a action = "event list \<times> (error + 'a)"

definition call :: "event \<Rightarrow> error + 'a \<Rightarrow> 'a action" where
  "call ev outcome = ([ev], outcome)"

definition and_then :: "'a action \<Rightarrow> ('a \<Rightarrow> 'b action) \<Rightarrow> 'b action" where
  "and_then m f =
     (case m of
        (tr, Inl e) \<Rightarrow> (tr, Inl e)
      | (tr, Inr a) \<Rightarrow> (case f a of (tr', r) \<Rightarrow> (tr @ tr', r)))"

text \<open>
  \<open>try: m finally: fin\<close>: the final block always runs; when it raises, its exception
  replaces the outcome of the body.
\<close>

definition try_finally :: "'a action \<Rightarrow> unit action \<Rightarrow> 'a action" where
  "try_finally m fin =
     (case m of (tr, r) \<Rightarrow>
        (case fin of
           (tr', Inl e) \<Rightarrow> (tr @ tr', Inl e)
         | (tr', Inr u) \<Rightarrow> (tr @ tr', r)))"

text \<open>Leaving \<open>async with async_playwright() as p\<close> stops Playwright, on every path.\<close>

definition async_with :: "'a action \<Rightarrow> 'a action" where
  "async_with m = (case m of (tr, r) \<Rightarrow> (tr @ [PlaywrightStop], r))"

text \<open>Lines 74-77: the first input field, or the exception of line 75.\<close>

definition first_input_field :: "nat list \<Rightarrow> error + nat" where
  "first_input_field fs = (case fs of [] \<Rightarrow> Inl InputNotFound | f # rest \<Rightarrow> Inr f)"

text \<open>
  Lines 86-91: the loop over \<open>enumerate(buttons)\<close>, from index \<open>i\<close> on, with the two
  indices recorded so far. \<open>"..." in text\<close> raises \<open>TypeError\<close> when \<open>text\<close> is \<open>None\<close>.
\<close>

fun scan_buttons :: "button list \<Rightarrow> int \<Rightarrow> int \<Rightarrow> int \<Rightarrow> error + int \<times> int" where
  "scan_buttons [] i web_search_index stepfun_video_index =
     Inr (web_search_index, stepfun_video_index)"
| "scan_buttons (b # bs) i web_search_index stepfun_video_index =
     (case btn_text b of
        Inl e \<Rightarrow> Inl e
      | Inr None \<Rightarrow> Inl TypeError
      | Inr (Some text) \<Rightarrow>
          if py_in web_search_marker text
          then scan_buttons bs (i + 1) i stepfun_video_index
          else if py_in stepfun_video_marker text
          then scan_buttons bs (i + 1) web_search_index i
          else scan_buttons bs (i + 1) web_search_index stepfun_video_index)"

text \<open>Python's \<open>xs[a:b]\<close>: a negative bound counts from the end, and bounds are clipped.\<close>

definition slice_bound :: "int \<Rightarrow> nat \<Rightarrow> nat" where
  "slice_bound i n = (if i < 0 then nat (max 0 (i + int n)) else min (nat i) n)"

definition py_slice :: "'a list \<Rightarrow> int \<Rightarrow> int \<Rightarrow> 'a list" where
  "py_slice xs a b = drop (slice_bound a (length xs)) (take (slice_bound b (length xs)) xs)"

text \<open>Lines 83-101: the button to click, or the exception of line 88, 94 or 99.\<close>

definition find_chat_button :: "button list \<Rightarrow> error + button" where
  "find_chat_button bs =
     (case scan_buttons bs 0 (- 1) (- 1) of
        Inl e \<Rightarrow> Inl e
      | Inr (web_search_index, stepfun_video_index) \<Rightarrow>
          if web_search_index = - 1 \<or> stepfun_video_index = - 1 then Inl TargetButtonNotFound
          else (case py_slice bs (web_search_index + 1) stepfun_video_index of
                  [] \<Rightarrow> Inl ChatButtonNotFound
                | middle_button # rest \<Rightarrow> Inr middle_button))"

text \<open>Lines 83-106, given the buttons found.\<close>

definition click_and_wait :: "env \<Rightarrow> button list \<Rightarrow> poll_result action" where
  "click_and_wait E bs =
     and_then ([], find_chat_button bs) (\<lambda>middle_button.
     and_then (call (ClickButton middle_button) (middle_click E)) (\<lambda>u.
     call WaitForAiResponse (wait_for_ai_response (ticks E))))"

text \<open>Lines 72-106, given the input fields found.\<close>

definition fill_and_submit :: "env \<Rightarrow> ustr \<Rightarrow> nat list \<Rightarrow> poll_result action" where
  "fill_and_submit E input_text fs =
     and_then ([], first_input_field fs) (\<lambda>input_field.
     and_then (call (Fill input_field input_text) (fill E)) (\<lambda>u.
     and_then (call QueryButtons (buttons E)) (click_and_wait E)))"

text \<open>Lines 59-106: the body of the \<open>try\<close>.\<close>

definition try_body :: "env \<Rightarrow> ustr \<Rightarrow> poll_result action" where
  "try_body E input_text =
     and_then (call Goto (goto E)) (\<lambda>u.
     and_then (call WaitForLoadState (wait_for_load_state E)) (\<lambda>u.
     and_then (call QueryReasonButton (reason_button E)) (\<lambda>deepseek_button.
     and_then (case deepseek_button of
                 None \<Rightarrow> ([], Inr ())
               | Some h \<Rightarrow> call (ClickReasonButton h) (reason_click E)) (\<lambda>u.
     and_then (call QueryInputFields (input_fields E)) (fill_and_submit E input_text)))))"

text \<open>Lines 42-109.\<close>

definition chat_with_stepfun_ai :: "env \<Rightarrow> ustr \<Rightarrow> poll_result action" where
  "chat_with_stepfun_ai E input_text =
     and_then (call Makedirs (makedirs E)) (\<lambda>u.
     and_then (call PlaywrightStart (async_playwright E)) (\<lambda>u.
     async_with (
       and_then (call Launch (launch E)) (\<lambda>u.
       and_then (call NewContext (new_context E)) (\<lambda>u.
       and_then (call NewPage (new_page E)) (\<lambda>u.
       try_finally (try_body E input_text) (call BrowserClose (browser_close E))))))))"

text \<open>
  Conditions on the outside world: the browser, its context and its page are there (the
  \<open>try\<close> is entered); the page is loaded and the optional mode button handled; the run
  gets as far as the list \<open>bs\<close> of buttons.
\<close>

definition session_acquired :: "env \<Rightarrow> bool" where
  "session_acquired E =
     (makedirs E = Inr () \<and> async_playwright E = Inr () \<and> launch E = Inr ()
      \<and> new_context E = Inr () \<and> new_page E = Inr ())"

definition page_ready :: "env \<Rightarrow> bool" where
  "page_ready E =
     (goto E = Inr () \<and> wait_for_load_state E = Inr ()
      \<and> (case reason_button E of
            Inl e \<Rightarrow> False
          | Inr None \<Rightarrow> True
          | Inr (Some h) \<Rightarrow> reason_click E = Inr ()))"

definition reaches_buttons :: "env \<Rightarrow> button list \<Rightarrow> bool" where
  "reaches_buttons E bs =
     (session_acquired E \<and> page_ready E
      \<and> (case input_fields E of Inl e \<Rightarrow> False | Inr fs \<Rightarrow> fs \<noteq> [])
      \<and> fill E = Inr () \<and> buttons E = Inr bs)"

text \<open>The texts of a list of buttons, when every \<open>text_content()\<close> returns a string.\<close>

definition has_texts :: "button list \<Rightarrow> ustr list \<Rightarrow> bool" where
  "has_texts bs texts = (map btn_text bs = map (\<lambda>t. Inr (Some t)) texts)"

text \<open>
  \<open>k\<close> is the index of the last text that satisfies \<open>P\<close>, or \<open>-1\<close> when no text does.
\<close>

definition is_last_index :: "(ustr \<Rightarrow> bool) \<Rightarrow> ustr list \<Rightarrow> int \<Rightarrow> bool" where
  "is_last_index P texts k =
     (if list_ex P texts
      then 0 \<le> k \<and> nat k < length texts \<and> P (texts ! nat k)
           \<and> \<not> list_ex P (drop (Suc (nat k)) texts)
      else k = - 1)"

text \<open>Concrete worlds.\<close>

definition text_button :: "nat \<Rightarrow> ustr \<Rightarrow> button" where
  "text_button h t = \<lparr>btn_handle = h, btn_text = Inr (Some t)\<rparr>"

definition sample_env :: "nat list \<Rightarrow> button list \<Rightarrow> env" where
  "sample_env fs bs =
     \<lparr>makedirs = Inr (), async_playwright = Inr (), launch = Inr (), new_context = Inr (),
      new_page = Inr (), goto = Inr (), wait_for_load_state = Inr (),
      reason_button = Inr (Some 7), reason_click = Inr (),
      input_fields = Inr fs, fill = Inr (),
      buttons = Inr bs, middle_click = Inr (),
      ticks = scenario_page, browser_close = Inr ()\<rparr>"

definition chat_text :: ustr where
  \<comment> \<open>"chat"\<close>
  "chat_text = [99, 104, 97, 116]"

definition good_buttons :: "button list" where
  "good_buttons =
     [text_button 10 web_search_marker, text_button 11 chat_text,
      text_button 12 stepfun_video_marker]"

definition mixed_buttons :: "button list" where
  \<comment> \<open>both markers, no marker, the right marker, both markers\<close>
  "mixed_buttons =
     [text_button 20 (web_search_marker @ stepfun_video_marker), text_button 21 chat_text,
      text_button 22 stepfun_video_marker,
      text_button 23 (stepfun_video_marker @ web_search_marker)]"

definition no_left_buttons :: "button list" where
  \<comment> \<open>no button with the left marker\<close>
  "no_left_buttons = [text_button 11 chat_text, text_button 12 stepfun_video_marker]"


section \<open>Properties of the read\<close>

lemma py_in_sublist: "py_in m s = sublist m s"
  by (induction s) (auto simp: sublist_Cons_right)

text \<open>
  C10. The read of the response region is total: whatever the page answers, it returns a
  string, never an error; the string is empty when the locator or the text extraction
  raises and when the text content is null, and it is the text content otherwise.
\<close>

theorem get_ai_response_total:
  "get_ai_response LocatorRaises = Inr []
   \<and> get_ai_response TextContentRaises = Inr []
   \<and> get_ai_response (TextContent None) = Inr []
   \<and> get_ai_response (TextContent (Some t)) = Inr t
   \<and> (\<exists>s. get_ai_response r = Inr s)"
  by (cases r; simp add: get_ai_response_def read_region_def split: option.splits)

section \<open>Properties of the polling loop\<close>

lemma stored_after_append:
  "stored_after (xs @ ys) p = (case stored_after xs p of None \<Rightarrow> None | Some q \<Rightarrow> stored_after ys q)"
  by (induction xs arbitrary: p) (auto split: loop_state.splits)

lemma poll_ticks_append:
  "stored_after xs p = Some q \<Longrightarrow> poll_ticks (xs @ ys) p = poll_ticks ys q"
  by (induction xs arbitrary: p) (auto split: loop_state.splits)

lemma poll_tick_continue_cases:
  "poll_tick p e = Continue q \<Longrightarrow> (skipped e \<and> q = p) \<or> (\<not> skipped e \<and> q = tick_response e)"
  by (auto simp: poll_tick_def tick_body_def skipped_def tick_response_def get_ai_response_def
      split: sum.splits tick_step.splits if_splits option.splits)

lemma stored_after_observations:
  "stored_after es p = Some q \<Longrightarrow> q = (if observations es = [] then p else last (observations es))"
proof (induction es arbitrary: p)
  case Nil
  then show ?case by (simp add: observations_def)
next
  case (Cons e es)
  then obtain p' where st: "poll_tick p e = Continue p'" and rest: "stored_after es p' = Some q"
    by (auto split: loop_state.splits)
  from Cons.IH [OF rest] have q: "q = (if observations es = [] then p' else last (observations es))" .
  from poll_tick_continue_cases [OF st] show ?case
    using q by (auto simp: observations_def)
qed

lemma upt_1800_split: "i < 1800 \<Longrightarrow> map page [0..<1800] = map page [0..<i] @ page i # map page [Suc i..<1800]"
  by (metis (no_types) less_imp_le_nat map_append upt_add_eq_append upt_conv_Cons zero_le le_add_diff_inverse list.simps(9))

text \<open>
  C1. In a run of the polling loop that reaches tick \<open>i\<close> with \<open>prev\<close> stored, if the
  tick is not skipped and reads a text whose trimmed form is non-empty and equal to the
  trimmed \<open>prev\<close>, then that tick returns and the run completes with exactly the text read.
\<close>

theorem stable_text_completes:
  assumes "i < 1800"
    and "stored_after (map page [0..<i]) [] = Some prev"
    and "wait_for_timeout (page i) = Inr ()"
    and "get_ai_response (region (page i)) = Inr response"
    and "\<not> py_in thinking_marker response"
    and "strip response \<noteq> []"
    and "strip response = strip prev"
  shows "poll_tick prev (page i) = Return response \<and> wait_for_ai_response page = Inr (Completed response)"
proof -
  have t: "poll_tick prev (page i) = Return response"
    using assms(3-7) by (simp add: poll_tick_def tick_body_def)
  have "wait_for_ai_response page = poll_ticks (page i # map page [Suc i..<1800]) prev"
    unfolding wait_for_ai_response_def upt_1800_split [OF assms(1)]
    by (rule poll_ticks_append [OF assms(2)])
  with t show ?thesis by simp
qed

text \<open>
  C2. A tick whose freshly read text contains the in-progress marker leaves the stored
  previous observation unchanged and does not end the run: the stored text after the tick
  is the one before it, and the run goes on as if the tick had not been there.
\<close>

theorem marker_tick_skipped:
  assumes "wait_for_timeout e = Inr ()"
    and "get_ai_response (region e) = Inr response"
    and "py_in thinking_marker response"
  shows "poll_tick prev e = Continue prev
    \<and> stored_after (pre @ [e]) p0 = stored_after pre p0
    \<and> poll_ticks (pre @ e # es) p0 = poll_ticks (pre @ es) p0"
proof -
  have t: "\<And>p. poll_tick p e = Continue p"
    using assms by (simp add: poll_tick_def tick_body_def)
  have s: "stored_after (pre @ [e]) p0 = stored_after pre p0"
    by (simp add: stored_after_append t split: option.splits)
  have "poll_ticks (pre @ e # es) p0 = poll_ticks (pre @ es) p0"
    by (induction pre arbitrary: p0) (auto simp: t split: loop_state.splits)
  with t s show ?thesis by simp
qed

lemma strip_Nil: "strip [] = []"
  by (simp add: strip_def)

lemma strip_partial: "strip partial_text = partial_text"
  by (simp add: strip_def partial_text_def is_space_def)

lemma marker_in_partial: "\<not> py_in thinking_marker partial_text"
  by (simp add: thinking_marker_def partial_text_def)

lemma marker_in_scenario: "py_in thinking_marker thinking_text"
  by (simp add: thinking_marker_def thinking_text_def)

lemma marker_in_Nil: "thinking_marker \<noteq> []"
  by (simp add: thinking_marker_def)

lemma tick_response_text: "tick_response (text_tick s) = s"
  by (simp add: tick_response_def text_tick_def get_ai_response_def read_region_def)

lemma skipped_text: "skipped (text_tick s) = py_in thinking_marker s"
  by (simp add: skipped_def tick_response_text)

lemma get_text: "get_ai_response (region (text_tick s)) = Inr s"
  by (simp add: get_ai_response_def read_region_def text_tick_def)

lemma poll_tick_text:
  "poll_tick p (text_tick s) =
    (if py_in thinking_marker s then Continue p
     else if strip p \<noteq> [] \<and> strip p = strip s then Return s else Continue s)"
  by (simp add: poll_tick_def tick_body_def text_tick_def get_ai_response_def read_region_def)

text \<open>The second tick of the scenario is skipped.\<close>

theorem marker_tick_skipped_witness:
  "wait_for_timeout (scenario_page 1) = Inr ()
   \<and> get_ai_response (region (scenario_page 1)) = Inr thinking_text
   \<and> py_in thinking_marker thinking_text
   \<and> poll_tick [] (scenario_page 1) = Continue []
   \<and> stored_after ([scenario_page 0] @ [scenario_page 1]) [] = stored_after [scenario_page 0] []
   \<and> poll_ticks ([scenario_page 0] @ scenario_page 1 # [scenario_page 2, scenario_page 3]) []
       = poll_ticks ([scenario_page 0] @ [scenario_page 2, scenario_page 3]) []"
proof -
  have a: "wait_for_timeout (scenario_page 1) = Inr ()"
    by (simp add: scenario_page_def text_tick_def)
  have b: "get_ai_response (region (scenario_page 1)) = Inr thinking_text"
    by (simp add: scenario_page_def get_text)
  note c = marker_in_scenario
  from marker_tick_skipped [OF a b c, of "[]" "[scenario_page 0]" "[]" "[scenario_page 2, scenario_page 3]"] a b c
  show ?thesis by blast
qed

lemma scenario_stored: "stored_after (map scenario_page [0..<3]) [] = Some partial_text"
proof -
  have "map scenario_page [0..<3]
      = [text_tick [], text_tick thinking_text, text_tick partial_text]"
    by (simp add: upt_rec scenario_page_def)
  then show ?thesis
    by (simp add: poll_tick_text marker_in_scenario marker_in_partial strip_Nil marker_in_Nil)
qed

text \<open>The scenario of the specification: the fourth tick completes with "partial".\<close>

theorem stable_text_completes_witness:
  "(3::nat) < 1800
   \<and> stored_after (map scenario_page [0..<3]) [] = Some partial_text
   \<and> wait_for_timeout (scenario_page 3) = Inr ()
   \<and> get_ai_response (region (scenario_page 3)) = Inr partial_text
   \<and> \<not> py_in thinking_marker partial_text
   \<and> strip partial_text \<noteq> []
   \<and> poll_tick partial_text (scenario_page 3) = Return partial_text
   \<and> wait_for_ai_response scenario_page = Inr (Completed partial_text)"
proof -
  have a: "(3::nat) < 1800" by simp
  have c: "wait_for_timeout (scenario_page 3) = Inr ()"
    by (simp add: scenario_page_def text_tick_def)
  have d: "get_ai_response (region (scenario_page 3)) = Inr partial_text"
    by (simp add: scenario_page_def get_text)
  have e: "strip partial_text \<noteq> []"
    by (simp add: strip_partial) (simp add: partial_text_def)
  have f: "strip partial_text = strip partial_text" by simp
  from stable_text_completes [OF a scenario_stored c d marker_in_partial e f] a scenario_stored c d marker_in_partial e
  show ?thesis by blast
qed

text \<open>
  C3, as amended. When all 1800 ticks elapse and none of them returns, the loop returns
  on its timeout path; the text returned is the last stored observation when that
  observation is non-empty, and the fallback message otherwise. The last stored
  observation is the text read by the last tick that was not skipped (the empty string
  when every tick was skipped).
\<close>

theorem budget_exhausted_result:
  assumes "stored_after (map page [0..<1800]) [] = Some p"
  shows "wait_for_ai_response page = Inr (TimedOut (if p \<noteq> [] then p else timeout_message))
    \<and> p = (if observations (map page [0..<1800]) = [] then []
           else last (observations (map page [0..<1800])))"
proof -
  have "poll_ticks (map page [0..<1800] @ []) [] = poll_ticks [] p"
    by (rule poll_ticks_append [OF assms])
  then have "wait_for_ai_response page = Inr (TimedOut (if p \<noteq> [] then p else timeout_message))"
    by (simp add: wait_for_ai_response_def)
  with stored_after_observations [OF assms] show ?thesis by simp
qed

lemma stored_after_empty_reads:
  "\<forall>e \<in> set es. e = text_tick [] \<Longrightarrow> es \<noteq> [] \<Longrightarrow> stored_after es p = Some []"
proof (induction es arbitrary: p)
  case Nil
  then show ?case by simp
next
  case (Cons e es)
  have t: "poll_tick p e = Continue []"
    using Cons.prems by (simp add: poll_tick_text marker_in_Nil strip_Nil)
  show ?case
  proof (cases "es = []")
    case True
    then show ?thesis using t by simp
  next
    case False
    with Cons show ?thesis using t by simp
  qed
qed

lemma fading_split: "map fading_page [0..<1800] = fading_page 0 # map fading_page [Suc 0..<1800]"
  by (simp add: upt_rec [of 0])

lemma fading_tail: "stored_after (map fading_page [Suc 0..<1800]) p = Some []"
  by (rule stored_after_empty_reads) (auto simp: fading_page_def)

lemma fading_stored: "stored_after (map fading_page [0..<1800]) [] = Some []"
  unfolding fading_split
  by (simp add: fading_page_def poll_tick_text marker_in_partial strip_Nil fading_tail)

lemma observations_Cons:
  "observations (e # es) = (if skipped e then observations es else tick_response e # observations es)"
  by (simp add: observations_def)

lemma observations_empty_reads: "observations (replicate n (text_tick [])) = replicate n []"
  by (induction n) (simp_all add: observations_Cons skipped_text tick_response_text marker_in_Nil,
      simp add: observations_def)

lemma fading_observations:
  "observations (map fading_page [0..<1800]) = partial_text # replicate 1799 []"
proof -
  have "map fading_page [Suc 0..<1800] = replicate 1799 (text_tick [])"
    by (rule replicate_eqI) (auto simp: fading_page_def)
  then show ?thesis
    unfolding fading_split
    by (simp add: observations_Cons observations_empty_reads skipped_text tick_response_text
        fading_page_def marker_in_partial)
qed

text \<open>
  C3 as stated fails on \<open>fading_page\<close>: the non-empty text "partial" is stored at the first
  tick, the last stored observation is the empty string, and the run returns the fallback
  message, not the last stored observation.
\<close>

theorem budget_exhausted_counterexample:
  "stored_after (map fading_page [0..<1800]) [] = Some []
   \<and> stored_after (map fading_page [0..<1]) [] = Some partial_text
   \<and> partial_text \<noteq> []
   \<and> wait_for_ai_response fading_page = Inr (TimedOut timeout_message)
   \<and> timeout_message \<noteq> []"
proof -
  have a: "stored_after (map fading_page [0..<1]) [] = Some partial_text"
    by (simp add: fading_page_def poll_tick_text marker_in_partial strip_Nil)
  have b: "wait_for_ai_response fading_page = Inr (TimedOut timeout_message)"
    using poll_ticks_append [OF fading_stored, of "[]"] by (simp add: wait_for_ai_response_def)
  show ?thesis using a b fading_stored by (simp add: partial_text_def timeout_message_def)
qed

text \<open>A run that exhausts its budget with the empty string stored.\<close>

theorem budget_exhausted_result_witness:
  "stored_after (map fading_page [0..<1800]) [] = Some []
   \<and> wait_for_ai_response fading_page = Inr (TimedOut timeout_message)
   \<and> last (observations (map fading_page [0..<1800])) = []"
  using budget_exhausted_result [OF fading_stored] fading_stored by (simp add: fading_observations)

text \<open>
  C4, as amended. A read error is swallowed inside \<open>get_ai_response\<close>, which returns the
  empty string; the tick does not end the run, and it stores the empty string as the
  previous observation.
\<close>

theorem read_error_stores_empty:
  "get_ai_response LocatorRaises = Inr []
   \<and> get_ai_response TextContentRaises = Inr []
   \<and> poll_tick prev \<lparr>wait_for_timeout = Inr (), region = LocatorRaises\<rparr> = Continue []
   \<and> poll_tick prev \<lparr>wait_for_timeout = Inr (), region = TextContentRaises\<rparr> = Continue []
   \<and> poll_ticks (\<lparr>wait_for_timeout = Inr (), region = LocatorRaises\<rparr> # es) prev = poll_ticks es []
   \<and> poll_ticks (\<lparr>wait_for_timeout = Inr (), region = TextContentRaises\<rparr> # es) prev = poll_ticks es []"
  by (simp add: poll_tick_def tick_body_def get_ai_response_def read_region_def strip_Nil
      marker_in_Nil)

text \<open>
  C4 as stated fails: with "partial" stored, a tick whose read raises stores the empty
  string, where a skipped tick keeps "partial"; so "partial", a failed read, "partial"
  does not complete, where "partial", a skipped tick, "partial" does.
\<close>

theorem read_error_counterexample:
  "poll_tick partial_text failing_tick = Continue []
   \<and> poll_tick partial_text (text_tick thinking_marker) = Continue partial_text
   \<and> partial_text \<noteq> []
   \<and> poll_ticks [text_tick partial_text, failing_tick, text_tick partial_text] []
       = Inr (TimedOut partial_text)
   \<and> poll_ticks [text_tick partial_text, text_tick thinking_marker, text_tick partial_text] []
       = Inr (Completed partial_text)"
proof -
  have a: "poll_tick partial_text failing_tick = Continue []"
    by (simp add: failing_tick_def poll_tick_def tick_body_def get_ai_response_def read_region_def
      strip_Nil marker_in_Nil)
  have b: "poll_tick [] failing_tick = Continue []"
    by (simp add: failing_tick_def poll_tick_def tick_body_def get_ai_response_def read_region_def
      strip_Nil marker_in_Nil)
  have m: "py_in thinking_marker thinking_marker"
    by (simp add: thinking_marker_def)
  have ne: "partial_text \<noteq> []" by (simp add: partial_text_def)
  show ?thesis
    using ne by (simp add: a b m poll_tick_text marker_in_partial strip_partial strip_Nil)
qed

section \<open>Properties of the run\<close>

lemma chat_acquired:
  assumes "session_acquired E"
  shows "chat_with_stepfun_ai E t =
    ([Makedirs, PlaywrightStart, Launch, NewContext, NewPage] @ fst (try_body E t)
       @ [BrowserClose, PlaywrightStop],
     case browser_close E of Inl e \<Rightarrow> Inl e | Inr u \<Rightarrow> snd (try_body E t))"
  using assms
  by (cases "try_body E t")
     (simp add: session_acquired_def chat_with_stepfun_ai_def and_then_def call_def
       try_finally_def async_with_def split: sum.splits)

lemma click_and_wait_events:
  "set (fst (click_and_wait E bs)) \<subseteq> insert WaitForAiResponse (range ClickButton)"
  by (auto simp: click_and_wait_def and_then_def call_def split: sum.splits prod.splits)

lemma fill_and_submit_events:
  "set (fst (fill_and_submit E t fs))
     \<subseteq> {Fill (hd fs) t, QueryButtons, WaitForAiResponse} \<union> range ClickButton"
proof -
  have "\<And>bs. set (fst (click_and_wait E bs)) \<subseteq> insert WaitForAiResponse (range ClickButton)"
    by (rule click_and_wait_events)
  then have "\<And>bs tr r. click_and_wait E bs = (tr, r) \<Longrightarrow> set tr \<subseteq> insert WaitForAiResponse (range ClickButton)"
    by (metis fst_conv)
  then show ?thesis
    by (cases fs) (auto simp: fill_and_submit_def first_input_field_def and_then_def call_def
        split: sum.splits prod.splits)
qed



lemma try_body_ready:
  assumes "page_ready E"
  shows "\<exists>pre. set pre \<subseteq> insert Goto (insert WaitForLoadState (insert QueryReasonButton (range ClickReasonButton)))
     \<and> try_body E t = and_then (pre @ [QueryInputFields], input_fields E) (fill_and_submit E t)"
proof (cases "reason_button E")
  case (Inl e)
  with assms show ?thesis by (simp add: page_ready_def)
next
  case (Inr ob)
  show ?thesis
  proof (cases ob)
    case None
    with Inr assms have "try_body E t =
       and_then ([Goto, WaitForLoadState, QueryReasonButton] @ [QueryInputFields], input_fields E)
         (fill_and_submit E t)"
      by (simp add: page_ready_def try_body_def and_then_def call_def split: sum.splits prod.splits)
    then show ?thesis by (intro exI [of _ "[Goto, WaitForLoadState, QueryReasonButton]"]) simp
  next
    case (Some h)
    with Inr assms have "try_body E t =
       and_then ([Goto, WaitForLoadState, QueryReasonButton, ClickReasonButton h] @ [QueryInputFields], input_fields E)
         (fill_and_submit E t)"
      by (simp add: page_ready_def try_body_def and_then_def call_def split: sum.splits prod.splits)
    then show ?thesis
      by (intro exI [of _ "[Goto, WaitForLoadState, QueryReasonButton, ClickReasonButton h]"]) simp
  qed
qed

lemma scan_buttons_bounds:
  "scan_buttons bs i ws sv = Inr (l, r) \<Longrightarrow>
     (l = ws \<or> (i \<le> l \<and> l < i + int (length bs))) \<and> (r = sv \<or> (i \<le> r \<and> r < i + int (length bs)))"
proof (induction bs arbitrary: i ws sv)
  case Nil
  then show ?case by simp
next
  case (Cons b bs)
  then show ?case
    by (fastforce split: sum.splits option.splits if_splits)
qed

lemma last_step:
  assumes "if list_ex P ts
     then i + 1 \<le> k \<and> nat (k - (i + 1)) < length ts \<and> P (ts ! nat (k - (i + 1)))
          \<and> \<not> list_ex P (drop (Suc (nat (k - (i + 1)))) ts)
     else k = (if P t then i else acc)"
  shows "if list_ex P (t # ts)
     then i \<le> k \<and> nat (k - i) < length (t # ts) \<and> P ((t # ts) ! nat (k - i))
          \<and> \<not> list_ex P (drop (Suc (nat (k - i))) (t # ts))
     else k = acc"
proof (cases "list_ex P ts")
  case True
  with assms have k: "i + 1 \<le> k" "nat (k - (i + 1)) < length ts" "P (ts ! nat (k - (i + 1)))"
    "\<not> list_ex P (drop (Suc (nat (k - (i + 1)))) ts)" by simp_all
  from k(1) have e: "nat (k - i) = Suc (nat (k - (i + 1)))" by simp
  show ?thesis using True k by (simp add: e)
next
  case False
  with assms have k: "k = (if P t then i else acc)" by simp
  show ?thesis using False k by (auto simp: list_ex_iff dest: in_set_dropD)
qed

lemma scan_buttons_texts:
  "has_texts bs texts \<Longrightarrow>
   \<exists>l r. scan_buttons bs i ws sv = Inr (l, r)
     \<and> (if list_ex (py_in web_search_marker) texts
         then i \<le> l \<and> nat (l - i) < length texts \<and> py_in web_search_marker (texts ! nat (l - i))
           \<and> \<not> list_ex (py_in web_search_marker) (drop (Suc (nat (l - i))) texts)
         else l = ws)
     \<and> (if list_ex (\<lambda>t. \<not> py_in web_search_marker t \<and> py_in stepfun_video_marker t) texts
         then i \<le> r \<and> nat (r - i) < length texts
           \<and> (\<lambda>t. \<not> py_in web_search_marker t \<and> py_in stepfun_video_marker t) (texts ! nat (r - i))
           \<and> \<not> list_ex (\<lambda>t. \<not> py_in web_search_marker t \<and> py_in stepfun_video_marker t)
                 (drop (Suc (nat (r - i))) texts)
         else r = sv)"
proof (induction bs arbitrary: texts i ws sv)
  case Nil
  then show ?case by (simp add: has_texts_def)
next
  case (Cons b bs)
  then obtain t ts where texts: "texts = t # ts" and b: "btn_text b = Inr (Some t)"
    and ts: "has_texts bs ts"
    by (auto simp: has_texts_def)
  let ?L = "py_in web_search_marker"
  let ?R = "\<lambda>t. \<not> py_in web_search_marker t \<and> py_in stepfun_video_marker t"
  let ?ws = "if ?L t then i else ws"
  let ?sv = "if ?R t then i else sv"
  have step: "scan_buttons (b # bs) i ws sv = scan_buttons bs (i + 1) ?ws ?sv"
    using b by simp
  from Cons.IH [OF ts, of "i + 1" ?ws ?sv] obtain l r where
    s: "scan_buttons bs (i + 1) ?ws ?sv = Inr (l, r)"
    and l: "if list_ex ?L ts
         then i + 1 \<le> l \<and> nat (l - (i + 1)) < length ts \<and> ?L (ts ! nat (l - (i + 1)))
           \<and> \<not> list_ex ?L (drop (Suc (nat (l - (i + 1)))) ts)
         else l = ?ws"
    and r: "if list_ex ?R ts
         then i + 1 \<le> r \<and> nat (r - (i + 1)) < length ts \<and> ?R (ts ! nat (r - (i + 1)))
           \<and> \<not> list_ex ?R (drop (Suc (nat (r - (i + 1)))) ts)
         else r = ?sv"
    by blast
  note l' = last_step [of ?L ts i l t ws, OF l]
  note r' = last_step [of ?R ts i r t sv, OF r]
  show ?case
    unfolding texts step s using l' r' by blast
qed

lemma scan_buttons_last:
  assumes "has_texts bs texts"
  shows "\<exists>l r. scan_buttons bs 0 (- 1) (- 1) = Inr (l, r)
     \<and> is_last_index (py_in web_search_marker) texts l
     \<and> is_last_index (\<lambda>t. \<not> py_in web_search_marker t \<and> py_in stepfun_video_marker t) texts r"
proof -
  from scan_buttons_texts [OF assms, of 0 "- 1" "- 1"] obtain l r where
    "scan_buttons bs 0 (- 1) (- 1) = Inr (l, r)"
    "is_last_index (py_in web_search_marker) texts l"
    "is_last_index (\<lambda>t. \<not> py_in web_search_marker t \<and> py_in stepfun_video_marker t) texts r"
    unfolding is_last_index_def by (auto cong: if_cong)
  then show ?thesis by blast
qed

lemma py_slice_between:
  assumes "0 \<le> l" "l < int (length bs)" "0 \<le> r" "r < int (length bs)"
  shows "py_slice bs (l + 1) r = (if l + 1 < r then bs ! nat (l + 1) # drop (nat (l + 1) + 1) (take (nat r) bs) else [])"
proof -
  have sl: "py_slice bs (l + 1) r = drop (nat (l + 1)) (take (nat r) bs)"
    using assms by (simp add: py_slice_def slice_bound_def min_def)
  show ?thesis
  proof (cases "l + 1 < r")
    case True
    then have n: "nat (l + 1) < length (take (nat r) bs)" using assms by simp
    from Cons_nth_drop_Suc [OF n] have "drop (nat (l + 1)) (take (nat r) bs)
       = take (nat r) bs ! nat (l + 1) # drop (Suc (nat (l + 1))) (take (nat r) bs)" by simp
    moreover have "take (nat r) bs ! nat (l + 1) = bs ! nat (l + 1)"
      using True assms by simp
    ultimately show ?thesis using True sl by simp
  next
    case False
    then show ?thesis using sl assms by simp
  qed
qed

lemma find_chat_button_found:
  assumes "scan_buttons bs 0 (- 1) (- 1) = Inr (l, r)" "l \<noteq> - 1" "r \<noteq> - 1"
  shows "find_chat_button bs = (if l + 1 < r then Inr (bs ! nat (l + 1)) else Inl ChatButtonNotFound)"
proof -
  from scan_buttons_bounds [OF assms(1)] assms(2,3)
  have b: "0 \<le> l" "l < int (length bs)" "0 \<le> r" "r < int (length bs)" by auto
  show ?thesis
    using assms by (simp add: find_chat_button_def py_slice_between [OF b])
qed

lemma run_to_buttons:
  assumes "reaches_buttons E bs"
  shows "\<exists>pre. set pre \<subseteq> {Goto, WaitForLoadState, QueryReasonButton, QueryInputFields, QueryButtons}
           \<union> range ClickReasonButton \<union> range (\<lambda>h. Fill h t)
     \<and> try_body E t = (pre @ fst (click_and_wait E bs), snd (click_and_wait E bs))"
proof -
  from assms have pr: "page_ready E" by (simp add: reaches_buttons_def)
  from assms obtain f fs where fs: "input_fields E = Inr (f # fs)"
    by (auto simp: reaches_buttons_def neq_Nil_conv split: sum.splits)
  from assms have fl: "fill E = Inr ()" and bt: "buttons E = Inr bs"
    by (simp_all add: reaches_buttons_def)
  from try_body_ready [OF pr, of t] obtain pre where
    pre: "set pre \<subseteq> insert Goto (insert WaitForLoadState (insert QueryReasonButton (range ClickReasonButton)))"
    and tb: "try_body E t = and_then (pre @ [QueryInputFields], input_fields E) (fill_and_submit E t)"
    by blast
  have "try_body E t = ((pre @ [QueryInputFields, Fill f t, QueryButtons]) @ fst (click_and_wait E bs),
      snd (click_and_wait E bs))"
    unfolding tb
    by (cases "click_and_wait E bs")
       (simp add: fs fl bt and_then_def fill_and_submit_def first_input_field_def call_def)
  moreover have "set (pre @ [QueryInputFields, Fill f t, QueryButtons])
     \<subseteq> {Goto, WaitForLoadState, QueryReasonButton, QueryInputFields, QueryButtons}
           \<union> range ClickReasonButton \<union> range (\<lambda>h. Fill h t)"
    using pre by auto
  ultimately show ?thesis by blast
qed

lemma and_then_call_Inl: "and_then (call ev (Inl e)) f = ([ev], Inl e)"
  by (simp add: and_then_def call_def)

lemma and_then_call_Inr: "and_then (call ev (Inr a)) f = (ev # fst (f a), snd (f a))"
  by (cases "f a") (simp add: and_then_def call_def)



lemma sample_acquired: "session_acquired (sample_env fs bs)"
  by (simp add: session_acquired_def sample_env_def)

lemma sample_ready: "page_ready (sample_env fs bs)"
  by (simp add: page_ready_def sample_env_def)

lemma sample_reaches: "reaches_buttons (sample_env [3] bs) bs"
  by (simp add: reaches_buttons_def sample_acquired sample_ready) (simp add: sample_env_def)




lemma and_then_ret: "and_then ([], Inr a) f = f a"
  by (cases "f a") (simp add: and_then_def)

lemma and_then_raise: "and_then ([], Inl e) f = ([], Inl e)"
  by (simp add: and_then_def)

lemma fill_and_submit_Nil: "fill_and_submit E t [] = ([], Inl InputNotFound)"
  by (simp add: fill_and_submit_def first_input_field_def and_then_raise)

lemma fill_and_submit_Cons: "\<exists>tr'. fst (fill_and_submit E t (f # rest)) = Fill f t # tr'"
proof (cases "fill E")
  case (Inl e)
  then show ?thesis
    by (simp add: fill_and_submit_def first_input_field_def and_then_ret and_then_call_Inl)
next
  case (Inr u)
  then show ?thesis
    by (simp add: fill_and_submit_def first_input_field_def and_then_ret and_then_call_Inr)
qed

lemma fst_and_then_Inr: "fst (and_then (tr, Inr a) f) = tr @ fst (f a)"
  by (cases "f a") (simp add: and_then_def)

lemma snd_and_then_Inr: "snd (and_then (tr, Inr a) f) = snd (f a)"
  by (cases "f a") (simp add: and_then_def)

text \<open>
  C7. When the run gets as far as the list of input fields (the elements that match
  \<open>input, textarea, [contenteditable='true']\<close>, in document order), the field that
  receives the query text is the first of the list, and no other field is filled; when
  the list is empty the run fails with the control-not-found exception of line 75 and
  fills nothing.
\<close>

theorem first_input_field_filled:
  assumes "session_acquired E" and "page_ready E" and "input_fields E = Inr fs"
    and "browser_close E = Inr ()"
  shows "(fs = [] \<longrightarrow>
            snd (chat_with_stepfun_ai E t) = Inl InputNotFound
            \<and> is_control_not_found InputNotFound
            \<and> (\<forall>h s. Fill h s \<notin> set (fst (chat_with_stepfun_ai E t))))
       \<and> (fs \<noteq> [] \<longrightarrow>
            first_input_field fs = Inr (hd fs)
            \<and> Fill (hd fs) t \<in> set (fst (chat_with_stepfun_ai E t))
            \<and> (\<forall>h s. Fill h s \<in> set (fst (chat_with_stepfun_ai E t)) \<longrightarrow> h = hd fs \<and> s = t))"
    (is "?A \<and> ?B")
proof -
  from try_body_ready [OF assms(2), of t] obtain pre where
    pre: "set pre \<subseteq> insert Goto (insert WaitForLoadState (insert QueryReasonButton (range ClickReasonButton)))"
    and tb: "try_body E t = and_then (pre @ [QueryInputFields], input_fields E) (fill_and_submit E t)"
    by blast
  have nofill: "\<And>h s. Fill h s \<notin> set pre" using pre by auto
  have tbf: "fst (try_body E t) = (pre @ [QueryInputFields]) @ fst (fill_and_submit E t fs)"
    unfolding tb assms(3) by (rule fst_and_then_Inr)
  have tbs: "snd (try_body E t) = snd (fill_and_submit E t fs)"
    unfolding tb assms(3) by (rule snd_and_then_Inr)
  have chl: "fst (chat_with_stepfun_ai E t)
      = [Makedirs, PlaywrightStart, Launch, NewContext, NewPage] @ pre @ [QueryInputFields]
        @ fst (fill_and_submit E t fs) @ [BrowserClose, PlaywrightStop]"
    unfolding chat_acquired [OF assms(1), of t] tbf by simp
  have chs: "snd (chat_with_stepfun_ai E t) = snd (fill_and_submit E t fs)"
    unfolding chat_acquired [OF assms(1), of t] tbs by (simp add: assms(4))
  show ?thesis
  proof (cases fs)
    case Nil
    have a: "snd (chat_with_stepfun_ai E t) = Inl InputNotFound"
      unfolding chs Nil fill_and_submit_Nil by simp
    have b: "\<forall>h s. Fill h s \<notin> set (fst (chat_with_stepfun_ai E t))"
      unfolding chl Nil fill_and_submit_Nil using nofill by simp
    from a b Nil show ?thesis by (simp add: is_control_not_found_def)
  next
    case (Cons f rest)
    from fill_and_submit_Cons [of E t f rest] obtain tr' where
      tr: "fst (fill_and_submit E t fs) = Fill f t # tr'"
      unfolding Cons by blast
    have sub: "set (fst (fill_and_submit E t fs))
        \<subseteq> {Fill (hd fs) t, QueryButtons, WaitForAiResponse} \<union> range ClickButton"
      by (rule fill_and_submit_events)
    have only: "\<And>h s. Fill h s \<in> set (fst (fill_and_submit E t fs)) \<Longrightarrow> h = f \<and> s = t"
    proof -
      fix h s
      assume "Fill h s \<in> set (fst (fill_and_submit E t fs))"
      with sub have "Fill h s \<in> {Fill (hd fs) t, QueryButtons, WaitForAiResponse} \<union> range ClickButton"
        by (rule subsetD)
      then show "h = f \<and> s = t" using Cons by auto
    qed
    have one: "first_input_field fs = Inr (hd fs)"
      using Cons by (simp add: first_input_field_def)
    have two: "Fill (hd fs) t \<in> set (fst (chat_with_stepfun_ai E t))"
      unfolding chl tr using Cons by simp
    have three: "\<forall>h s. Fill h s \<in> set (fst (chat_with_stepfun_ai E t)) \<longrightarrow> h = hd fs \<and> s = t"
    proof (intro allI impI)
      fix h s
      assume "Fill h s \<in> set (fst (chat_with_stepfun_ai E t))"
      then have "Fill h s \<in> set pre \<or> Fill h s \<in> set (fst (fill_and_submit E t fs))"
        unfolding chl by simp
      with nofill [of h s] have "Fill h s \<in> set (fst (fill_and_submit E t fs))" by simp
      from only [OF this] show "h = hd fs \<and> s = t" using Cons by simp
    qed
    from Cons have ne: "fs \<noteq> []" by simp
    show ?thesis
    proof (rule conjI)
      show ?A using ne by simp
      show ?B using one two three by blast
    qed
  qed
qed

text \<open>With the fields 3 and 4 on the page, field 3 is filled and field 4 is not.\<close>

theorem first_input_field_filled_witness:
  "session_acquired (sample_env [3, 4] good_buttons)
   \<and> page_ready (sample_env [3, 4] good_buttons)
   \<and> input_fields (sample_env [3, 4] good_buttons) = Inr [3, 4]
   \<and> browser_close (sample_env [3, 4] good_buttons) = Inr ()
   \<and> Fill 3 chat_text \<in> set (fst (chat_with_stepfun_ai (sample_env [3, 4] good_buttons) chat_text))
   \<and> Fill 4 chat_text \<notin> set (fst (chat_with_stepfun_ai (sample_env [3, 4] good_buttons) chat_text))"
proof -
  let ?E = "sample_env [3, 4] good_buttons"
  let ?S = "set (fst (chat_with_stepfun_ai ?E chat_text))"
  have a: "input_fields ?E = Inr [3, 4]"
    and b: "browser_close ?E = Inr ()"
    by (simp_all add: sample_env_def)
  have ne: "[3, 4::nat] \<noteq> []" by simp
  from first_input_field_filled [OF sample_acquired sample_ready a b, of chat_text]
  have "[3, 4::nat] \<noteq> [] \<longrightarrow>
      first_input_field [3, 4] = Inr (hd [3, 4])
      \<and> Fill (hd [3, 4]) chat_text \<in> ?S
      \<and> (\<forall>h s. Fill h s \<in> ?S \<longrightarrow> h = hd [3, 4] \<and> s = chat_text)"
    by (rule conjunct2)
  from mp [OF this ne]
  have here: "Fill (hd [3, 4]) chat_text \<in> ?S"
    and only: "\<forall>h s. Fill h s \<in> ?S \<longrightarrow> h = hd [3, 4] \<and> s = chat_text"
    by blast+
  from here have here': "Fill 3 chat_text \<in> ?S" by simp
  have not4: "Fill 4 chat_text \<notin> ?S"
  proof
    assume "Fill 4 chat_text \<in> ?S"
    with only have "(4::nat) = hd [3, 4]" by blast
    then show False by simp
  qed
  from here' not4 a b sample_acquired [of "[3, 4]" good_buttons] sample_ready [of "[3, 4]" good_buttons]
  show ?thesis by blast
qed

text \<open>
  C9. When every button has a text, the loop records as left boundary the index of the
  last button whose text contains the left marker, and as right boundary the index of the
  last button whose text contains the right marker and not the left one (\<open>-1\<close> when
  there is none): a button whose text contains the left marker is never recorded as the
  right boundary.
\<close>

theorem boundaries_are_last_matches:
  assumes "has_texts bs texts"
  shows "\<exists>l r. scan_buttons bs 0 (- 1) (- 1) = Inr (l, r)
     \<and> is_last_index (py_in web_search_marker) texts l
     \<and> is_last_index (\<lambda>t. \<not> py_in web_search_marker t \<and> py_in stepfun_video_marker t) texts r
     \<and> (r \<noteq> - 1 \<longrightarrow> \<not> py_in web_search_marker (texts ! nat r))"
proof -
  from scan_buttons_last [OF assms] obtain l r where
    s: "scan_buttons bs 0 (- 1) (- 1) = Inr (l, r)"
    and l: "is_last_index (py_in web_search_marker) texts l"
    and r: "is_last_index (\<lambda>t. \<not> py_in web_search_marker t \<and> py_in stepfun_video_marker t) texts r"
    by blast
  from r have "r \<noteq> - 1 \<longrightarrow> \<not> py_in web_search_marker (texts ! nat r)"
    by (auto simp: is_last_index_def split: if_splits)
  with s l r show ?thesis by blast
qed

lemma web_in_web: "py_in web_search_marker web_search_marker"
  by (simp add: web_search_marker_def)

lemma video_in_video: "py_in stepfun_video_marker stepfun_video_marker"
  by (simp add: stepfun_video_marker_def)

lemma web_in_video: "\<not> py_in web_search_marker stepfun_video_marker"
  by (simp add: web_search_marker_def stepfun_video_marker_def)

lemma video_in_web: "\<not> py_in stepfun_video_marker web_search_marker"
  by (simp add: web_search_marker_def stepfun_video_marker_def)

lemma web_in_chat: "\<not> py_in web_search_marker chat_text"
  by (simp add: web_search_marker_def chat_text_def)

lemma video_in_chat: "\<not> py_in stepfun_video_marker chat_text"
  by (simp add: stepfun_video_marker_def chat_text_def)

lemma web_in_both: "py_in web_search_marker (web_search_marker @ stepfun_video_marker)"
  "py_in web_search_marker (stepfun_video_marker @ web_search_marker)"
  by (simp_all add: web_search_marker_def stepfun_video_marker_def)

lemma mixed_scan: "scan_buttons mixed_buttons 0 (- 1) (- 1) = Inr (3, 2)"
  by (simp add: mixed_buttons_def text_button_def web_in_both web_in_chat video_in_chat
      web_in_video video_in_video)

text \<open>
  Four buttons, the first and the last with both markers: the left boundary is the last
  button, the right boundary the third.
\<close>

theorem boundaries_are_last_matches_witness:
  "has_texts mixed_buttons
     [web_search_marker @ stepfun_video_marker, chat_text, stepfun_video_marker,
      stepfun_video_marker @ web_search_marker]
   \<and> scan_buttons mixed_buttons 0 (- 1) (- 1) = Inr (3, 2)
   \<and> is_last_index (py_in web_search_marker)
       [web_search_marker @ stepfun_video_marker, chat_text, stepfun_video_marker,
        stepfun_video_marker @ web_search_marker] 3
   \<and> is_last_index (\<lambda>t. \<not> py_in web_search_marker t \<and> py_in stepfun_video_marker t)
       [web_search_marker @ stepfun_video_marker, chat_text, stepfun_video_marker,
        stepfun_video_marker @ web_search_marker] 2"
proof -
  have h: "has_texts mixed_buttons
     [web_search_marker @ stepfun_video_marker, chat_text, stepfun_video_marker,
      stepfun_video_marker @ web_search_marker]"
    by (simp add: has_texts_def mixed_buttons_def text_button_def)
  from boundaries_are_last_matches [OF h] h mixed_scan show ?thesis by auto
qed

lemma fst_call: "fst (call ev r) = [ev]"
  by (simp add: call_def)

lemma click_and_wait_missing:
  assumes "find_chat_button bs = Inl e"
  shows "click_and_wait E bs = ([], Inl e)"
  by (simp add: click_and_wait_def assms and_then_raise)

lemma click_and_wait_found:
  assumes "find_chat_button bs = Inr mb"
  shows "\<exists>tl. fst (click_and_wait E bs) = ClickButton mb # tl \<and> set tl \<subseteq> {WaitForAiResponse}"
proof (cases "middle_click E")
  case (Inl e)
  then show ?thesis
    by (simp add: click_and_wait_def assms and_then_ret and_then_call_Inl)
next
  case (Inr u)
  then show ?thesis
    by (simp add: click_and_wait_def assms and_then_ret and_then_call_Inr fst_call)
qed

lemma chat_to_buttons:
  assumes "reaches_buttons E bs"
  shows "\<exists>pre. set pre \<subseteq> {Goto, WaitForLoadState, QueryReasonButton, QueryInputFields, QueryButtons}
           \<union> range ClickReasonButton \<union> range (\<lambda>h. Fill h t)
     \<and> chat_with_stepfun_ai E t
       = ([Makedirs, PlaywrightStart, Launch, NewContext, NewPage] @ pre
            @ fst (click_and_wait E bs) @ [BrowserClose, PlaywrightStop],
          case browser_close E of Inl e \<Rightarrow> Inl e | Inr u \<Rightarrow> snd (click_and_wait E bs))"
proof -
  from assms have sa: "session_acquired E" by (simp add: reaches_buttons_def)
  from run_to_buttons [OF assms, of t] obtain pre where
    pre: "set pre \<subseteq> {Goto, WaitForLoadState, QueryReasonButton, QueryInputFields, QueryButtons}
           \<union> range ClickReasonButton \<union> range (\<lambda>h. Fill h t)"
    and tb: "try_body E t = (pre @ fst (click_and_wait E bs), snd (click_and_wait E bs))"
    by blast
  have "chat_with_stepfun_ai E t
       = ([Makedirs, PlaywrightStart, Launch, NewContext, NewPage] @ pre
            @ fst (click_and_wait E bs) @ [BrowserClose, PlaywrightStop],
          case browser_close E of Inl e \<Rightarrow> Inl e | Inr u \<Rightarrow> snd (click_and_wait E bs))"
    unfolding chat_acquired [OF sa, of t] tb by (simp split: sum.splits)
  with pre show ?thesis by blast
qed

text \<open>
  C5. When the run gets as far as the list of buttons, every button has a text, and no
  text contains the left marker or no text contains the right marker, the run fails with
  the control-not-found exception of line 94 and \<open>wait_for_ai_response\<close> is never called.
\<close>

theorem missing_boundary_fails:
  assumes "reaches_buttons E bs" and "has_texts bs texts"
    and "(\<forall>t \<in> set texts. \<not> py_in web_search_marker t)
         \<or> (\<forall>t \<in> set texts. \<not> py_in stepfun_video_marker t)"
    and "browser_close E = Inr ()"
  shows "snd (chat_with_stepfun_ai E t) = Inl TargetButtonNotFound
     \<and> is_control_not_found TargetButtonNotFound
     \<and> WaitForAiResponse \<notin> set (fst (chat_with_stepfun_ai E t))"
proof -
  from scan_buttons_last [OF assms(2)] obtain l r where
    s: "scan_buttons bs 0 (- 1) (- 1) = Inr (l, r)"
    and l: "is_last_index (py_in web_search_marker) texts l"
    and r: "is_last_index (\<lambda>t. \<not> py_in web_search_marker t \<and> py_in stepfun_video_marker t) texts r"
    by blast
  from assms(3) have "l = - 1 \<or> r = - 1"
  proof
    assume "\<forall>t \<in> set texts. \<not> py_in web_search_marker t"
    then have "\<not> list_ex (py_in web_search_marker) texts" by (simp add: list_ex_iff)
    with l show ?thesis by (simp add: is_last_index_def)
  next
    assume "\<forall>t \<in> set texts. \<not> py_in stepfun_video_marker t"
    then have "\<not> list_ex (\<lambda>t. \<not> py_in web_search_marker t \<and> py_in stepfun_video_marker t) texts"
      by (simp add: list_ex_iff)
    with r show ?thesis by (simp add: is_last_index_def)
  qed
  then have "find_chat_button bs = Inl TargetButtonNotFound"
    by (auto simp: find_chat_button_def s)
  then have cw: "click_and_wait E bs = ([], Inl TargetButtonNotFound)"
    by (rule click_and_wait_missing)
  from chat_to_buttons [OF assms(1), of t] obtain pre where
    pre: "set pre \<subseteq> {Goto, WaitForLoadState, QueryReasonButton, QueryInputFields, QueryButtons}
           \<union> range ClickReasonButton \<union> range (\<lambda>h. Fill h t)"
    and ch: "chat_with_stepfun_ai E t
       = ([Makedirs, PlaywrightStart, Launch, NewContext, NewPage] @ pre
            @ fst (click_and_wait E bs) @ [BrowserClose, PlaywrightStop],
          case browser_close E of Inl e \<Rightarrow> Inl e | Inr u \<Rightarrow> snd (click_and_wait E bs))"
    by blast
  have nowait: "WaitForAiResponse \<notin> set pre" using pre by auto
  have a: "snd (chat_with_stepfun_ai E t) = Inl TargetButtonNotFound"
    unfolding ch cw by (simp add: assms(4))
  have b: "WaitForAiResponse \<notin> set (fst (chat_with_stepfun_ai E t))"
    unfolding ch cw using nowait by simp
  from a b show ?thesis by (simp add: is_control_not_found_def)
qed

text \<open>Two buttons, neither with the left marker: the run fails before any polling.\<close>

theorem missing_boundary_fails_witness:
  "reaches_buttons (sample_env [3] no_left_buttons) no_left_buttons
   \<and> has_texts no_left_buttons [chat_text, stepfun_video_marker]
   \<and> \<not> py_in web_search_marker chat_text
   \<and> \<not> py_in web_search_marker stepfun_video_marker
   \<and> browser_close (sample_env [3] no_left_buttons) = Inr ()
   \<and> snd (chat_with_stepfun_ai (sample_env [3] no_left_buttons) chat_text)
       = Inl TargetButtonNotFound
   \<and> WaitForAiResponse \<notin> set (fst (chat_with_stepfun_ai (sample_env [3] no_left_buttons) chat_text))"
proof -
  have h: "has_texts no_left_buttons [chat_text, stepfun_video_marker]"
    by (simp add: has_texts_def no_left_buttons_def text_button_def)
  have n: "\<forall>t \<in> set [chat_text, stepfun_video_marker]. \<not> py_in web_search_marker t"
    by (simp add: web_in_chat web_in_video)
  then have n': "(\<forall>t \<in> set [chat_text, stepfun_video_marker]. \<not> py_in web_search_marker t)
         \<or> (\<forall>t \<in> set [chat_text, stepfun_video_marker]. \<not> py_in stepfun_video_marker t)"
    by (rule disjI1)
  have c: "browser_close (sample_env [3] no_left_buttons) = Inr ()"
    by (simp add: sample_env_def)
  from missing_boundary_fails [OF sample_reaches h n' c, of chat_text]
    sample_reaches [of no_left_buttons] h c web_in_chat web_in_video
  show ?thesis by blast
qed

text \<open>
  C6. When the run gets as far as the list of buttons and the loop has recorded both
  boundaries, at the indices \<open>l\<close> (left) and \<open>r\<close> (right): if some index lies strictly
  between them (\<open>l < k < r\<close>, that is \<open>l + 1 < r\<close>), the button clicked is the one at
  \<open>l + 1\<close>, the first such index, and no other button is clicked; otherwise the run fails
  with the control-not-found exception of line 99, clicks no button and never polls.
\<close>

theorem chat_button_between:
  assumes "reaches_buttons E bs" and "scan_buttons bs 0 (- 1) (- 1) = Inr (l, r)"
    and "l \<noteq> - 1" and "r \<noteq> - 1" and "browser_close E = Inr ()"
  shows "(l + 1 < r \<longrightarrow>
            0 \<le> l \<and> nat (l + 1) < length bs
            \<and> (\<forall>k. l < int k \<and> int k < r \<longrightarrow> nat (l + 1) \<le> k)
            \<and> find_chat_button bs = Inr (bs ! nat (l + 1))
            \<and> ClickButton (bs ! nat (l + 1)) \<in> set (fst (chat_with_stepfun_ai E t))
            \<and> (\<forall>b. ClickButton b \<in> set (fst (chat_with_stepfun_ai E t))
                  \<longrightarrow> b = bs ! nat (l + 1)))
       \<and> (\<not> l + 1 < r \<longrightarrow>
            snd (chat_with_stepfun_ai E t) = Inl ChatButtonNotFound
            \<and> is_control_not_found ChatButtonNotFound
            \<and> (\<forall>b. ClickButton b \<notin> set (fst (chat_with_stepfun_ai E t)))
            \<and> WaitForAiResponse \<notin> set (fst (chat_with_stepfun_ai E t)))"
    (is "?A \<and> ?B")
proof -
  from scan_buttons_bounds [OF assms(2)] assms(3,4)
  have bd: "0 \<le> l" "l < int (length bs)" "0 \<le> r" "r < int (length bs)" by auto
  note found = find_chat_button_found [OF assms(2,3,4)]
  from chat_to_buttons [OF assms(1), of t] obtain pre where
    pre: "set pre \<subseteq> {Goto, WaitForLoadState, QueryReasonButton, QueryInputFields, QueryButtons}
           \<union> range ClickReasonButton \<union> range (\<lambda>h. Fill h t)"
    and ch: "chat_with_stepfun_ai E t
       = ([Makedirs, PlaywrightStart, Launch, NewContext, NewPage] @ pre
            @ fst (click_and_wait E bs) @ [BrowserClose, PlaywrightStop],
          case browser_close E of Inl e \<Rightarrow> Inl e | Inr u \<Rightarrow> snd (click_and_wait E bs))"
    by blast
  have noclick: "ClickButton b \<notin> set pre" for b using pre by auto
  have nowait: "WaitForAiResponse \<notin> set pre" using pre by auto
  show ?thesis
  proof (cases "l + 1 < r")
    case True
    let ?mb = "bs ! nat (l + 1)"
    have f: "find_chat_button bs = Inr ?mb" using found True by simp
    from click_and_wait_found [OF f, of E] obtain tl where
      tl: "fst (click_and_wait E bs) = ClickButton ?mb # tl" and sub: "set tl \<subseteq> {WaitForAiResponse}"
      by blast
    have one: "0 \<le> l \<and> nat (l + 1) < length bs" using bd True by auto
    have two: "\<forall>k. l < int k \<and> int k < r \<longrightarrow> nat (l + 1) \<le> k" by auto
    have three: "ClickButton ?mb \<in> set (fst (chat_with_stepfun_ai E t))"
      unfolding ch tl by simp
    have four: "\<forall>b. ClickButton b \<in> set (fst (chat_with_stepfun_ai E t)) \<longrightarrow> b = ?mb"
    proof (intro allI impI)
      fix b
      assume "ClickButton b \<in> set (fst (chat_with_stepfun_ai E t))"
      then have "ClickButton b \<in> set pre \<or> ClickButton b = ClickButton ?mb \<or> ClickButton b \<in> set tl"
        unfolding ch tl by auto
      moreover have "ClickButton b \<notin> set tl" using sub by auto
      ultimately show "b = ?mb" using noclick [of b] by simp
    qed
    show ?thesis
    proof (rule conjI)
      show ?A using one two f three four by blast
      show ?B using True by simp
    qed
  next
    case False
    have f: "find_chat_button bs = Inl ChatButtonNotFound" using found False by simp
    then have cw: "click_and_wait E bs = ([], Inl ChatButtonNotFound)"
      by (rule click_and_wait_missing)
    have a: "snd (chat_with_stepfun_ai E t) = Inl ChatButtonNotFound"
      unfolding ch cw by (simp add: assms(5))
    have b: "\<forall>b. ClickButton b \<notin> set (fst (chat_with_stepfun_ai E t))"
      unfolding ch cw using noclick by simp
    have c: "WaitForAiResponse \<notin> set (fst (chat_with_stepfun_ai E t))"
      unfolding ch cw using nowait by simp
    have d: "is_control_not_found ChatButtonNotFound" by (simp add: is_control_not_found_def)
    show ?thesis
    proof (rule conjI)
      show ?A using False by simp
      show ?B using a b c d by blast
    qed
  qed
qed

lemma good_scan: "scan_buttons good_buttons 0 (- 1) (- 1) = Inr (0, 2)"
  by (simp add: good_buttons_def text_button_def web_in_web web_in_chat video_in_chat
      web_in_video video_in_video)

text \<open>Left marker, "chat", right marker: the button "chat" is clicked.\<close>

theorem chat_button_between_witness:
  "reaches_buttons (sample_env [3] good_buttons) good_buttons
   \<and> scan_buttons good_buttons 0 (- 1) (- 1) = Inr (0, 2)
   \<and> browser_close (sample_env [3] good_buttons) = Inr ()
   \<and> find_chat_button good_buttons = Inr (text_button 11 chat_text)
   \<and> ClickButton (text_button 11 chat_text)
       \<in> set (fst (chat_with_stepfun_ai (sample_env [3] good_buttons) chat_text))"
proof -
  let ?E = "sample_env [3] good_buttons"
  let ?S = "set (fst (chat_with_stepfun_ai ?E chat_text))"
  have c: "browser_close ?E = Inr ()" by (simp add: sample_env_def)
  have l: "(0::int) \<noteq> - 1" and r: "(2::int) \<noteq> - 1" by simp_all
  have lt: "(0::int) + 1 < 2" by simp
  have nth: "good_buttons ! nat (0 + 1) = text_button 11 chat_text"
    by (simp add: good_buttons_def)
  from chat_button_between [OF sample_reaches good_scan l r c, of chat_text]
  have "(0::int) + 1 < 2 \<longrightarrow>
            (0::int) \<le> 0 \<and> nat (0 + 1) < length good_buttons
            \<and> (\<forall>k. 0 < int k \<and> int k < 2 \<longrightarrow> nat (0 + 1) \<le> k)
            \<and> find_chat_button good_buttons = Inr (good_buttons ! nat (0 + 1))
            \<and> ClickButton (good_buttons ! nat (0 + 1)) \<in> ?S
            \<and> (\<forall>b. ClickButton b \<in> ?S \<longrightarrow> b = good_buttons ! nat (0 + 1))"
    by (rule conjunct1)
  from mp [OF this lt]
  have "find_chat_button good_buttons = Inr (good_buttons ! nat (0 + 1))"
    and "ClickButton (good_buttons ! nat (0 + 1)) \<in> ?S"
    by blast+
  then have "find_chat_button good_buttons = Inr (text_button 11 chat_text)"
    and "ClickButton (text_button 11 chat_text) \<in> ?S"
    unfolding nth by blast+
  with sample_reaches [of good_buttons] good_scan c show ?thesis by blast
qed

end
